theory Spec2Isabelle
  imports Complex_Main "HOL-Library.AList"
begin

section \<open>The analytics engine of SimpleFinances (src/src/App.tsx, the stats block)\<close>

text \<open>
  The embedding follows the \<^verbatim>\<open>stats\<close> computation of \<^verbatim>\<open>App.tsx\<close> (lines 166-276; the
  second UI variant in the same file repeats it verbatim) and the helper
  \<^verbatim>\<open>getAccountType\<close> (lines 33-40).

  Numbers. A JavaScript number is modelled as a \<^typ>\<open>real\<close>: arithmetic is exact, the
  rounding of IEEE doubles is not modelled. The fields \<open>balance\<close> and \<open>raw_amount\<close> hold the
  number that \<^verbatim>\<open>parseFloat\<close> reads from the decimal string of the input; strings that
  do not parse to a finite number (\<^verbatim>\<open>NaN\<close>) are outside the model.

  Strings. A string is a list of 8-bit characters; the texts are taken to be ASCII, so
  \<^verbatim>\<open>toLowerCase\<close> changes the letters \<open>A\<close> to \<open>Z\<close> only and the class \<^verbatim>\<open>\s\<close> of a regular
  expression is the six ASCII white-space characters.
\<close>

subsection \<open>Input data (the interfaces at the top of App.tsx)\<close>

record transaction =
  raw_id :: string
  raw_posted :: real
  raw_amount :: real
  raw_description :: string

text \<open>
  The code reads \<^verbatim>\<open>acc.transactions || []\<close>: a missing array is \<open>None\<close> here.
\<close>

record account =
  acc_id :: string
  name :: string
  balance :: real
  transactions :: "transaction list option"

record SimpleFINData =
  accounts :: "account list"

subsection \<open>String helpers of the JavaScript library\<close>

definition toLowerChar :: "char \<Rightarrow> char" where
  "toLowerChar c =
     (case map_of (zip ''ABCDEFGHIJKLMNOPQRSTUVWXYZ'' ''abcdefghijklmnopqrstuvwxyz'') c of
        Some l \<Rightarrow> l
      | None \<Rightarrow> c)"

definition toLowerCase :: "string \<Rightarrow> string" where
  "toLowerCase s = map toLowerChar s"

fun startsWith :: "string \<Rightarrow> string \<Rightarrow> bool" where
  "startsWith s [] = True"
| "startsWith [] (p # ps) = False"
| "startsWith (c # cs) (p # ps) = (c = p \<and> startsWith cs ps)"

text \<open>\<^verbatim>\<open>s.includes(sub)\<close>: \<open>sub\<close> occurs in \<open>s\<close> as a contiguous piece.\<close>

fun includesStr :: "string \<Rightarrow> string \<Rightarrow> bool" where
  "includesStr [] sub = (sub = [])"
| "includesStr (c # cs) sub = (startsWith (c # cs) sub \<or> includesStr cs sub)"

subsection \<open>getAccountType (lines 33-40)\<close>

datatype AccountType = Checking | Savings | CreditCard | Investment | Other

definition getAccountType :: "string \<Rightarrow> AccountType" where
  "getAccountType nm =
     (let n = toLowerCase nm in
      if includesStr n ''checking'' \<or> includesStr n ''spending'' then Checking
      else if includesStr n ''savings'' \<or> includesStr n ''reserve'' then Savings
      else if includesStr n ''credit'' \<or> includesStr n ''card'' \<or> includesStr n ''visa''
              \<or> includesStr n ''amex'' \<or> includesStr n ''mastercard'' then CreditCard
      else if includesStr n ''investment'' \<or> includesStr n ''brokerage'' \<or> includesStr n ''ira''
              \<or> includesStr n ''401k'' then Investment
      else Other)"

subsection \<open>allTransactions (lines 178-190)\<close>

text \<open>
  The enriched transaction: the fields of the input transaction with \<open>posted\<close>
  overwritten by the normalised time stamp, plus \<open>accountId\<close>, \<open>amountNum\<close> and
  \<open>accountName\<close>.
\<close>

record ntx =
  tx_id :: string
  posted :: real
  amountNum :: real
  description :: string
  accountId :: string
  accountName :: string

definition normalizePosted :: "real \<Rightarrow> real" where
  "normalizePosted p = (if p > 2000000000 then p / 1000 else p)"

definition enrich :: "account \<Rightarrow> transaction \<Rightarrow> ntx" where
  "enrich acc t =
     \<lparr> tx_id = raw_id t,
       posted = normalizePosted (raw_posted t),
       amountNum = raw_amount t,
       description = raw_description t,
       accountId = acc_id acc,
       accountName = name acc \<rparr>"

definition transactionsOrEmpty :: "account \<Rightarrow> transaction list" where
  "transactionsOrEmpty acc = (case transactions acc of None \<Rightarrow> [] | Some ts \<Rightarrow> ts)"

definition allTransactions :: "account list \<Rightarrow> ntx list" where
  "allTransactions accs = concat (map (\<lambda>acc. map (enrich acc) (transactionsOrEmpty acc)) accs)"

subsection \<open>The net worth loop (lines 192-205)\<close>

text \<open>
  The three running variables \<open>netWorth\<close>, \<open>assets\<close>, \<open>liabilities\<close> as a triple, and the
  body of \<^verbatim>\<open>data.accounts.forEach\<close> as one step on it.
\<close>

type_synonym totals = "real \<times> real \<times> real"

definition accountStep :: "totals \<Rightarrow> account \<Rightarrow> totals" where
  "accountStep s acc =
     (case s of (netWorth, assets, liabilities) \<Rightarrow>
        let bal = balance acc; type = getAccountType (name acc) in
        if type = CreditCard then
          (let owe = \<bar>bal\<bar> in (netWorth - owe, assets, liabilities + owe))
        else if bal > 0 then (netWorth + bal, assets + bal, liabilities)
        else (netWorth + bal, assets, liabilities + \<bar>bal\<bar>))"

definition netWorthLoop :: "account list \<Rightarrow> totals" where
  "netWorthLoop accs = foldl accountStep (0, 0, 0) accs"

subsection \<open>isTransfer (lines 207-213)\<close>

definition transferMatch :: "ntx \<Rightarrow> ntx \<Rightarrow> bool" where
  "transferMatch t other =
     (tx_id other \<noteq> tx_id t \<and>
      \<bar>amountNum other + amountNum t\<bar> < 1 / 1000 \<and>
      \<bar>posted other - posted t\<bar> < 259200)"

definition isTransfer :: "ntx list \<Rightarrow> ntx \<Rightarrow> bool" where
  "isTransfer allTxs t = list_ex (transferMatch t) allTxs"

subsection \<open>Plain objects used as dictionaries\<close>

text \<open>
  \<open>spendingByAccount\<close> and \<open>subGroups\<close> are object literals \<^verbatim>\<open>{}\<close>, so a read
  \<^verbatim>\<open>obj[key]\<close> of a key the object does not own falls through to \<^verbatim>\<open>Object.prototype\<close>.
  These are the property names found there (ECMAScript, with Annex B as every browser
  has it). Eleven of them are functions; \<^verbatim>\<open>__proto__\<close> is an accessor whose getter returns
  the prototype object and whose setter ignores a value that is neither an object nor
  null. All twelve inherited values are truthy.
\<close>

definition objectPrototypeNames :: "string list" where
  "objectPrototypeNames =
     [''constructor'', ''__defineGetter__'', ''__defineSetter__'', ''hasOwnProperty'',
      ''__lookupGetter__'', ''__lookupSetter__'', ''isPrototypeOf'', ''propertyIsEnumerable'',
      ''toString'', ''valueOf'', ''__proto__'', ''toLocaleString'']"

text \<open>
  What an entry of \<open>spendingByAccount\<close> holds: a number, or a string (the result of \<open>+\<close>
  on a function or a string and a number is a string concatenation; the text itself is
  not modelled, it is never empty).
\<close>

datatype entry = Number real | Text

text \<open>
  \<^verbatim>\<open>spendingByAccount[k] = (spendingByAccount[k] || 0) + a\<close>. The dictionary is an
  association list in insertion order (JavaScript enumerates integer-like keys first;
  that changes the order of the entries only).
  \<^item> own number \<open>v\<close>: \<open>v || 0\<close> is \<open>v\<close> unless \<open>v\<close> is 0, the sum is stored;
  \<^item> own string: string plus number is a string again;
  \<^item> no own entry and \<open>k\<close> is \<^verbatim>\<open>__proto__\<close>: the operand is the prototype object, the sum a
    string, and the assignment runs the setter, which drops it: nothing is stored;
  \<^item> no own entry and \<open>k\<close> names an inherited function: the operand is the function, the
    sum a string, stored as an own entry;
  \<^item> otherwise the read is \<^verbatim>\<open>undefined\<close> and \<open>0 + a\<close> is stored.
\<close>

definition addSpending :: "(string \<times> entry) list \<Rightarrow> string \<Rightarrow> real \<Rightarrow> (string \<times> entry) list" where
  "addSpending m k a =
     (case map_of m k of
        Some (Number v) \<Rightarrow> AList.update k (Number ((if v = 0 then 0 else v) + a)) m
      | Some Text \<Rightarrow> m
      | None \<Rightarrow>
          if k = ''__proto__'' then m
          else if k \<in> set objectPrototypeNames then m @ [(k, Text)]
          else m @ [(k, Number (0 + a))])"

datatype error = TypeError

text \<open>
  \<^verbatim>\<open>if (!subGroups[norm]) subGroups[norm] = { transactions: [] };\<close>
  \<^verbatim>\<open>subGroups[norm].transactions.push(t);\<close>
  A group is modelled by its \<open>transactions\<close> array. When \<open>norm\<close> is not an own key but names
  a property of \<^verbatim>\<open>Object.prototype\<close>, the first read is truthy, no group is created, the
  inherited value has no \<open>transactions\<close> and \<^verbatim>\<open>undefined.push\<close> throws a TypeError.
\<close>

definition pushGroup ::
  "(string \<times> ntx list) list \<Rightarrow> string \<Rightarrow> ntx \<Rightarrow> error + (string \<times> ntx list) list" where
  "pushGroup groups nrm t =
     (case map_of groups nrm of
        Some txs \<Rightarrow> Inr (AList.update nrm (txs @ [t]) groups)
      | None \<Rightarrow>
          if nrm \<in> set objectPrototypeNames then Inl TypeError
          else Inr (groups @ [(nrm, [t])]))"

subsection \<open>The grouping key (lines 225-230)\<close>

definition isLowerLetter :: "char \<Rightarrow> bool" where
  "isLowerLetter c = (c \<in> set ''abcdefghijklmnopqrstuvwxyz'')"

text \<open>The ASCII members of \<^verbatim>\<open>\s\<close>: space, tab, line feed, vertical tab, form feed, carriage return.\<close>

definition isWhitespace :: "char \<Rightarrow> bool" where
  "isWhitespace c = (c \<in> set [CHR '' '', CHR 0x09, CHR 0x0A, CHR 0x0B, CHR 0x0C, CHR 0x0D])"

text \<open>\<^verbatim>\<open>.replace(/[^a-z\s]/g, ' ')\<close>: every other character becomes one space.\<close>

definition replaceNonLetters :: "string \<Rightarrow> string" where
  "replaceNonLetters s = map (\<lambda>c. if isLowerLetter c \<or> isWhitespace c then c else CHR '' '') s"

text \<open>\<^verbatim>\<open>.replace(/\s+/g, ' ')\<close>: every maximal run of white space becomes one space.\<close>

function collapseWhitespace :: "string \<Rightarrow> string" where
  "collapseWhitespace [] = []"
| "collapseWhitespace (c # cs) =
     (if isWhitespace c then CHR '' '' # collapseWhitespace (dropWhile isWhitespace cs)
      else c # collapseWhitespace cs)"
  by pat_completeness auto
termination
  by (relation "measure length") (auto simp: length_dropWhile_le less_Suc_eq_le)

definition trim :: "string \<Rightarrow> string" where
  "trim s = rev (dropWhile isWhitespace (rev (dropWhile isWhitespace s)))"

text \<open>
  Splitting at separators: the pieces between the characters that satisfy \<open>P\<close>, empty
  pieces included; the empty string gives one empty piece. \<^verbatim>\<open>s.split(' ')\<close> splits at
  the space character.
\<close>

fun splitWhen :: "(char \<Rightarrow> bool) \<Rightarrow> string \<Rightarrow> string list" where
  "splitWhen P [] = [[]]"
| "splitWhen P (c # cs) =
     (if P c then [] # splitWhen P cs
      else (case splitWhen P cs of [] \<Rightarrow> [[c]] | w # ws \<Rightarrow> (c # w) # ws))"

definition splitOn :: "char \<Rightarrow> string \<Rightarrow> string list" where
  "splitOn sep s = splitWhen (\<lambda>c. c = sep) s"

definition stopwords :: "string list" where
  "stopwords = [''the'', ''inc'', ''com'', ''payment'']"

definition keepWord :: "string \<Rightarrow> bool" where
  "keepWord w = (length w > 2 \<and> w \<notin> set stopwords)"

fun joinWith :: "string \<Rightarrow> string list \<Rightarrow> string" where
  "joinWith sep [] = []"
| "joinWith sep [w] = w"
| "joinWith sep (w # v # ws) = w @ sep @ joinWith sep (v # ws)"

definition cleanDesc :: "string \<Rightarrow> string" where
  "cleanDesc d = trim (collapseWhitespace (replaceNonLetters (toLowerCase d)))"

definition groupingKey :: "string \<Rightarrow> string" where
  "groupingKey d =
     (let ws = filter keepWord (splitOn (CHR '' '') (cleanDesc d))
      in joinWith '' '' (take 2 ws))"

subsection \<open>The loop over allTransactions (lines 217-237)\<close>

text \<open>
  The state of the loop: \<open>spending30d\<close>, \<open>spendingByAccount\<close> and \<open>subGroups\<close> (keys in
  insertion order, which is the order \<^verbatim>\<open>Object.entries\<close> gives for keys that are not
  integers; a grouping key has letters and spaces only).
\<close>

type_synonym loopState = "real \<times> (string \<times> entry) list \<times> (string \<times> ntx list) list"

definition txStep :: "real \<Rightarrow> ntx list \<Rightarrow> loopState \<Rightarrow> ntx \<Rightarrow> error + loopState" where
  "txStep monthAgo allTxs s t =
     (case s of (spending30d, spendingByAccount, subGroups) \<Rightarrow>
        let amt = amountNum t;
            (spending30d', spendingByAccount') =
              (if posted t \<ge> monthAgo \<and> amt < 0 \<and> \<not> isTransfer allTxs t
               then (spending30d + \<bar>amt\<bar>, addSpending spendingByAccount (accountName t) \<bar>amt\<bar>)
               else (spending30d, spendingByAccount))
        in
        if amt < 0 \<and> \<not> isTransfer allTxs t then
          (let nrm = groupingKey (description t) in
           if length nrm \<ge> 3 then
             (case pushGroup subGroups nrm t of
                Inl e \<Rightarrow> Inl e
              | Inr subGroups' \<Rightarrow> Inr (spending30d', spendingByAccount', subGroups'))
           else Inr (spending30d', spendingByAccount', subGroups))
        else Inr (spending30d', spendingByAccount', subGroups))"

text \<open>\<^verbatim>\<open>forEach\<close>, left to right; an exception ends the loop.\<close>

fun forEachTx ::
  "(loopState \<Rightarrow> ntx \<Rightarrow> error + loopState) \<Rightarrow> loopState \<Rightarrow> ntx list \<Rightarrow> error + loopState" where
  "forEachTx f s [] = Inr s"
| "forEachTx f s (t # ts) = (case f s t of Inl e \<Rightarrow> Inl e | Inr s' \<Rightarrow> forEachTx f s' ts)"

subsection \<open>rawSubscriptions (lines 239-257)\<close>

record subscription =
  desc :: string
  amount :: real
  count :: nat
  normKey :: string

text \<open>
  \<^verbatim>\<open>sort((a, b) => b.posted - a.posted)\<close>: \<^verbatim>\<open>Array.prototype.sort\<close> is stable, so the
  result is the stable sort by descending \<open>posted\<close>.
\<close>

definition sortByPostedDesc :: "ntx list \<Rightarrow> ntx list" where
  "sortByPostedDesc txs = sort_key (\<lambda>t. - posted t) txs"

definition average :: "real list \<Rightarrow> real" where
  "average amounts = foldl (+) 0 amounts / real (length amounts)"

text \<open>
  \<^verbatim>\<open>amounts.every(a => Math.abs(a - avg) / avg < 0.3 || Math.abs(a - avg) < 10)\<close>.
  In JavaScript a quotient by zero is \<^verbatim>\<open>Infinity\<close> or \<^verbatim>\<open>NaN\<close> and the comparison with 0.3 is
  false; in HOL \<open>x / 0 = 0\<close>, so the model writes the zero case out.
\<close>

definition consistentAmount :: "real list \<Rightarrow> real \<Rightarrow> bool" where
  "consistentAmount amounts avg =
     list_all (\<lambda>a. (avg \<noteq> 0 \<and> \<bar>a - avg\<bar> / avg < 3 / 10) \<or> \<bar>a - avg\<bar> < 10) amounts"

text \<open>\<open>txs[0]\<close> and \<open>txs[txs.length - 1]\<close> are read under the guard \<open>txs.length >= 2\<close>.\<close>

definition hasTimeSpread :: "ntx list \<Rightarrow> bool" where
  "hasTimeSpread txs = (\<bar>posted (hd txs) - posted (last txs)\<bar> > 5 * 24 * 60 * 60)"

definition groupSubscription :: "string \<times> ntx list \<Rightarrow> subscription list" where
  "groupSubscription g =
     (case g of (nrm, members) \<Rightarrow>
        let txs = sortByPostedDesc members in
        if length txs \<ge> 2 then
          (let amounts = map (\<lambda>t. \<bar>amountNum t\<bar>) txs;
               avg = average amounts
           in if consistentAmount amounts avg \<and> hasTimeSpread txs \<and> avg > 1
              then [\<lparr> desc = description (hd txs), amount = avg, count = length txs,
                      normKey = nrm \<rparr>]
              else [])
        else [])"

definition rawSubscriptions :: "(string \<times> ntx list) list \<Rightarrow> subscription list" where
  "rawSubscriptions subGroups = concat (map groupSubscription subGroups)"

subsection \<open>subscriptions: dedup, sort, slice (lines 259-275)\<close>

fun dedupByNorm :: "string list \<Rightarrow> subscription list \<Rightarrow> subscription list" where
  "dedupByNorm seenNorms [] = []"
| "dedupByNorm seenNorms (sub # subs) =
     (if normKey sub \<in> set seenNorms then dedupByNorm seenNorms subs
      else sub # dedupByNorm (normKey sub # seenNorms) subs)"

definition sortByCountDesc :: "subscription list \<Rightarrow> subscription list" where
  "sortByCountDesc subs = sort_key (\<lambda>s. - int (count s)) subs"

definition sortByAmountDesc :: "subscription list \<Rightarrow> subscription list" where
  "sortByAmountDesc subs = sort_key (\<lambda>s. - amount s) subs"

definition dedupSubscriptions :: "subscription list \<Rightarrow> subscription list" where
  "dedupSubscriptions raw = dedupByNorm [] (sortByCountDesc raw)"

definition topSubscriptions :: "subscription list \<Rightarrow> subscription list" where
  "topSubscriptions subs = take 20 (sortByAmountDesc subs)"

subsection \<open>stats (lines 166-276)\<close>

record report =
  netWorth :: real
  assets :: real
  liabilities :: real
  spending30d :: real
  spendingByAccount :: "(string \<times> entry) list"
  subscriptions :: "subscription list"

text \<open>
  \<open>now\<close> is \<^verbatim>\<open>Date.now() / 1000\<close>; \<open>None\<close> is the \<^verbatim>\<open>!data\<close> case. The result is \<open>Inl\<close> when
  the loop over the transactions throws.
\<close>

definition stats :: "real \<Rightarrow> SimpleFINData option \<Rightarrow> error + report" where
  "stats now dat =
     (case dat of
        None \<Rightarrow>
          Inr (\<lparr> netWorth = 0, assets = 0, liabilities = 0, spending30d = 0,
                 spendingByAccount = [], subscriptions = [] \<rparr>)
      | Some d \<Rightarrow>
          (let monthAgo = now - 30 * 24 * 60 * 60;
               allTxs = allTransactions (accounts d)
           in case netWorthLoop (accounts d) of
                (nw, as, li) \<Rightarrow>
                  (case forEachTx (txStep monthAgo allTxs) (0, [], []) allTxs of
                     Inl e \<Rightarrow> Inl e
                   | Inr (s30, sba, subGroups) \<Rightarrow>
                       Inr (\<lparr> netWorth = nw, assets = as, liabilities = li,
                              spending30d = s30, spendingByAccount = sba,
                              subscriptions =
                                topSubscriptions
                                  (dedupSubscriptions (rawSubscriptions subGroups)) \<rparr>))))"

subsection \<open>getDummyData (lines 42-82)\<close>

definition getDummyData :: "real \<Rightarrow> SimpleFINData" where
  "getDummyData now =
     (let day = 24 * 60 * 60 in
      \<lparr> accounts =
          [\<lparr> acc_id = ''1'', name = ''Total Checking'', balance = 5240.50,
              transactions = Some
                [\<lparr> raw_id = ''t1'', raw_posted = now - 1 * day, raw_amount = - 120.00,
                    raw_description = ''Whole Foods Market'' \<rparr>,
                 \<lparr> raw_id = ''t2'', raw_posted = now - 3 * day, raw_amount = - 45.50,
                    raw_description = ''Chevron Gas Station'' \<rparr>,
                 \<lparr> raw_id = ''t3'', raw_posted = now - 30 * day, raw_amount = - 120.00,
                    raw_description = ''Whole Foods Market'' \<rparr>,
                 \<lparr> raw_id = ''t4'', raw_posted = now - 5 * day, raw_amount = 3500.00,
                    raw_description = ''Payroll Deposit'' \<rparr>] \<rparr>,
           \<lparr> acc_id = ''2'', name = ''High Yield Savings'', balance = 25000.00,
              transactions = Some
                [\<lparr> raw_id = ''t5'', raw_posted = now - 15 * day, raw_amount = 1000.00,
                    raw_description = ''Internal Transfer'' \<rparr>] \<rparr>,
           \<lparr> acc_id = ''3'', name = ''Platinum Card'', balance = 1250.00,
              transactions = Some
                [\<lparr> raw_id = ''t6'', raw_posted = now - 2 * day, raw_amount = - 85.00,
                    raw_description = ''Blue Bottle Coffee'' \<rparr>,
                 \<lparr> raw_id = ''t7'', raw_posted = now - 4 * day, raw_amount = - 150.00,
                    raw_description = ''Restoration Hardware'' \<rparr>,
                 \<lparr> raw_id = ''t8'', raw_posted = now - 32 * day, raw_amount = - 85.00,
                    raw_description = ''Blue Bottle Coffee'' \<rparr>] \<rparr>,
           \<lparr> acc_id = ''4'', name = ''Brokerage Account'', balance = 45200.00,
              transactions = Some [] \<rparr>] \<rparr>)"

subsection \<open>Vocabulary of the properties\<close>


text \<open>A negative amount that is not flagged as a transfer.\<close>

definition eligible :: "ntx list \<Rightarrow> ntx \<Rightarrow> bool" where
  "eligible allTxs t = (amountNum t < 0 \<and> \<not> isTransfer allTxs t)"

definition grouped :: "ntx list \<Rightarrow> ntx \<Rightarrow> bool" where
  "grouped allTxs t = (eligible allTxs t \<and> length (groupingKey (description t)) \<ge> 3)"

text \<open>The transactions of \<open>ts\<close> that the loop files under the key \<open>k\<close>, in their order.\<close>

definition membersOf :: "ntx list \<Rightarrow> string \<Rightarrow> ntx list \<Rightarrow> ntx list" where
  "membersOf allTxs k ts =
     filter (\<lambda>t. grouped allTxs t \<and> groupingKey (description t) = k) ts"

text \<open>The mean of the absolute amounts of a group.\<close>

definition groupAverage :: "ntx list \<Rightarrow> real" where
  "groupAverage txs = sum_list (map (\<lambda>t. \<bar>amountNum t\<bar>) txs) / real (length txs)"

definition qualifiesGroup :: "ntx list \<Rightarrow> bool" where
  "qualifiesGroup txs =
     (list_all (\<lambda>t. \<bar>\<bar>amountNum t\<bar> - groupAverage txs\<bar> / groupAverage txs < 3 / 10
                   \<or> \<bar>\<bar>amountNum t\<bar> - groupAverage txs\<bar> < 10) txs \<and>
      list_ex (\<lambda>a. list_ex (\<lambda>b. posted a - posted b > 5 * 24 * 60 * 60) txs) txs \<and>
      groupAverage txs > 1)"

text \<open>The maximal runs of the letters \<open>a\<close> to \<open>z\<close> in a string, left to right.\<close>

definition letterRuns :: "string \<Rightarrow> string list" where
  "letterRuns s = filter (\<lambda>w. w \<noteq> []) (splitWhen (\<lambda>c. \<not> isLowerLetter c) s)"

text \<open>
  The grouping key as the specification words it: the characters that are neither
  letters nor white space are stripped, that is removed, where the code puts a space.
\<close>

definition stripNonLetters :: "string \<Rightarrow> string" where
  "stripNonLetters s = filter (\<lambda>c. isLowerLetter c \<or> isWhitespace c) s"

definition specGroupingKey :: "string \<Rightarrow> string" where
  "specGroupingKey d =
     (let ws = filter keepWord
                 (splitOn (CHR '' '')
                    (trim (collapseWhitespace (stripNonLetters (toLowerCase d)))))
      in joinWith '' '' (take 2 ws))"

text \<open>The entries of \<open>spendingByAccount\<close> that are numbers, summed.\<close>

definition numberOf :: "entry \<Rightarrow> real" where
  "numberOf e = (case e of Number x \<Rightarrow> x | Text \<Rightarrow> 0)"

definition sumValues :: "(string \<times> entry) list \<Rightarrow> real" where
  "sumValues m = sum_list (map (\<lambda>kv. numberOf (snd kv)) m)"

text \<open>What the 30-day spending counts.\<close>

definition spend30 :: "real \<Rightarrow> ntx list \<Rightarrow> ntx \<Rightarrow> bool" where
  "spend30 monthAgo allTxs t =
     (posted t \<ge> monthAgo \<and> amountNum t < 0 \<and> \<not> isTransfer allTxs t)"

text \<open>
  The entries of \<open>spendingByAccount\<close> are strings exactly under the keys that name a
  property of \<^verbatim>\<open>Object.prototype\<close>.
\<close>

definition entriesTyped :: "(string \<times> entry) list \<Rightarrow> bool" where
  "entriesTyped m =
     list_all (\<lambda>kv. (snd kv = Text) = (fst kv \<in> set objectPrototypeNames)) m"

text \<open>The transactions of \<open>ts\<close> that count as spending of the account named \<open>k\<close>.\<close>

definition spentOn :: "real \<Rightarrow> ntx list \<Rightarrow> string \<Rightarrow> ntx list \<Rightarrow> ntx list" where
  "spentOn monthAgo allTxs k ts = filter (\<lambda>t. spend30 monthAgo allTxs t \<and> accountName t = k) ts"

subsection \<open>Example inputs\<close>

definition demoTransactions :: "ntx list" where
  "demoTransactions = allTransactions (accounts (getDummyData 1700000000))"

definition wholeFoods :: "ntx list" where
  "wholeFoods = filter (\<lambda>t. description t = ''Whole Foods Market'') demoTransactions"

text \<open>Two merchants charged the same amount twice.\<close>

definition tieData :: SimpleFINData where
  "tieData =
     \<lparr> accounts =
         [\<lparr> acc_id = ''1'', name = ''Total Checking'', balance = 5240.50,
             transactions = Some
               [\<lparr> raw_id = ''t1'', raw_posted = 1700000000 - 1 * 86400, raw_amount = - 120.00,
                   raw_description = ''Whole Foods Market'' \<rparr>,
                \<lparr> raw_id = ''t2'', raw_posted = 1700000000 - 2 * 86400, raw_amount = - 120.00,
                   raw_description = ''Blue Bottle Coffee'' \<rparr>,
                \<lparr> raw_id = ''t3'', raw_posted = 1700000000 - 30 * 86400, raw_amount = - 120.00,
                   raw_description = ''Whole Foods Market'' \<rparr>,
                \<lparr> raw_id = ''t4'', raw_posted = 1700000000 - 32 * 86400, raw_amount = - 120.00,
                   raw_description = ''Blue Bottle Coffee'' \<rparr>] \<rparr>] \<rparr>"

text \<open>One account with one purchase, the account's display name left open.\<close>

definition onePurchase :: "string \<Rightarrow> SimpleFINData" where
  "onePurchase accountName' =
     \<lparr> accounts =
         [\<lparr> acc_id = ''1'', name = accountName', balance = 0,
             transactions = Some
               [\<lparr> raw_id = ''t1'', raw_posted = 1700000000 - 86400, raw_amount = - 120.00,
                   raw_description = ''Whole Foods Market'' \<rparr>] \<rparr>] \<rparr>"

text \<open>A transfer of 1000 between two accounts, one day apart, and one within an account.\<close>

definition transferData :: SimpleFINData where
  "transferData =
     \<lparr> accounts =
         [\<lparr> acc_id = ''A'', name = ''Total Checking'', balance = 100,
             transactions = Some
               [\<lparr> raw_id = ''a1'', raw_posted = 1700000000, raw_amount = 1000.00,
                   raw_description = ''Transfer in'' \<rparr>,
                \<lparr> raw_id = ''a2'', raw_posted = 1700000000, raw_amount = - 50,
                   raw_description = ''Refunded order'' \<rparr>,
                \<lparr> raw_id = ''a3'', raw_posted = 1700000000 + 3600, raw_amount = 50,
                   raw_description = ''Refund'' \<rparr>] \<rparr>,
          \<lparr> acc_id = ''B'', name = ''High Yield Savings'', balance = 200,
             transactions = Some
               [\<lparr> raw_id = ''b1'', raw_posted = 1700000000 + 86400, raw_amount = - 1000.00,
                   raw_description = ''Transfer out'' \<rparr>] \<rparr>] \<rparr>"

text \<open>A purchase whose description leaves the single word \<open>constructor\<close> as its key.\<close>

definition constructorData :: SimpleFINData where
  "constructorData =
     \<lparr> accounts =
         [\<lparr> acc_id = ''1'', name = ''Total Checking'', balance = 100,
             transactions = Some
               [\<lparr> raw_id = ''t1'', raw_posted = 1700000000 - 86400, raw_amount = - 30,
                   raw_description = ''CONSTRUCTOR #1234'' \<rparr>] \<rparr>] \<rparr>"

section \<open>Properties\<close>

subsection \<open>Time stamps\<close>

text \<open>
  Claim C8. Every transaction that enters \<open>allTransactions\<close>, the only list the date
  comparisons read, carries \<open>posted / 1000\<close> when the input's \<open>posted\<close> exceeds
  2,000,000,000 and the unchanged \<open>posted\<close> otherwise; 1700000000000 and 1700000000
  normalise to the same value.
\<close>

theorem posted_normalized:
  "map posted (allTransactions accs) =
     map (\<lambda>t. if raw_posted t > 2000000000 then raw_posted t / 1000 else raw_posted t)
       (concat (map transactionsOrEmpty accs))
   \<and> normalizePosted 1700000000000 = 1700000000
   \<and> normalizePosted 1700000000 = 1700000000"
  by (simp add: allTransactions_def enrich_def normalizePosted_def map_concat comp_def)

subsection \<open>Net worth\<close>






subsection \<open>Transfers\<close>

lemma set_allTransactions:
  "set (allTransactions accs) = (\<Union>acc\<in>set accs. enrich acc ` set (transactionsOrEmpty acc))"
  by (auto simp: allTransactions_def)

text \<open>
  Claim C2. A transaction \<open>t\<close> is flagged as a transfer exactly when some transaction
  \<open>u\<close> of some account, with another id, has an amount that cancels the amount of \<open>t\<close> up to
  less than 0.001 and a normalised time stamp less than 259200 seconds away from that of
  \<open>t\<close>. Nothing is asked of the accounts of \<open>t\<close> and \<open>u\<close>, and the flag is a function of the
  list of all transactions alone: a match is never used up.
\<close>

theorem isTransfer_iff:
  "isTransfer (allTransactions accs) t \<longleftrightarrow>
     (\<exists>acc\<in>set accs. \<exists>u\<in>set (transactionsOrEmpty acc).
         raw_id u \<noteq> tx_id t \<and>
         \<bar>raw_amount u + amountNum t\<bar> < 1 / 1000 \<and>
         \<bar>normalizePosted (raw_posted u) - posted t\<bar> < 259200)"
  by (auto simp: isTransfer_def list_ex_iff set_allTransactions transferMatch_def enrich_def)

text \<open>
  In \<open>transferData\<close> the purchase \<open>a2\<close> and the refund \<open>a3\<close> are in the same account and
  flag each other; the deposit \<open>a1\<close> is matched by \<open>b1\<close> of the other account.
\<close>

theorem isTransfer_iff_witness:
  "map (isTransfer (allTransactions (accounts transferData)))
       (allTransactions (accounts transferData)) = [True, True, True, True]
   \<and> (\<exists>acc\<in>set (accounts transferData). \<exists>u\<in>set (transactionsOrEmpty acc).
         raw_id u \<noteq> ''a2'' \<and> \<bar>raw_amount u + (- 50)\<bar> < 1 / 1000 \<and>
         \<bar>normalizePosted (raw_posted u) - 1700000000\<bar> < 259200)"
proof -
  let ?t = "\<lparr> tx_id = ''a2'', posted = 1700000000, amountNum = - 50,
              description = ''Refunded order'', accountId = ''A'',
              accountName = ''Total Checking'' \<rparr>"
  have flags: "map (isTransfer (allTransactions (accounts transferData)))
       (allTransactions (accounts transferData)) = [True, True, True, True]"
    by code_simp
  have "isTransfer (allTransactions (accounts transferData)) ?t"
    by code_simp
  with isTransfer_iff[of "accounts transferData" ?t] flags show ?thesis
    by simp
qed

lemma transferMatch_sym: "transferMatch a b \<Longrightarrow> transferMatch b a"
  by (auto simp: transferMatch_def add.commute abs_minus_commute)

text \<open>
  Claim C7. When \<open>a\<close> is flagged because \<open>b\<close> matches it, then \<open>a\<close> matches \<open>b\<close> by the same
  predicate and \<open>b\<close> is flagged too.
\<close>

theorem transfer_symmetric:
  "a \<in> set allTxs \<Longrightarrow> b \<in> set allTxs \<Longrightarrow> transferMatch a b \<Longrightarrow>
     isTransfer allTxs a \<and> transferMatch b a \<and> isTransfer allTxs b"
  by (auto simp: isTransfer_def list_ex_iff dest: transferMatch_sym)

text \<open>The deposit of 1000 in account A and the withdrawal of 1000 in account B a day later.\<close>

theorem transfer_symmetric_witness:
  "allTransactions (accounts transferData) ! 0 \<in> set (allTransactions (accounts transferData))
   \<and> allTransactions (accounts transferData) ! 3 \<in> set (allTransactions (accounts transferData))
   \<and> transferMatch (allTransactions (accounts transferData) ! 0)
        (allTransactions (accounts transferData) ! 3)
   \<and> isTransfer (allTransactions (accounts transferData))
        (allTransactions (accounts transferData) ! 0)
   \<and> transferMatch (allTransactions (accounts transferData) ! 3)
        (allTransactions (accounts transferData) ! 0)
   \<and> isTransfer (allTransactions (accounts transferData))
        (allTransactions (accounts transferData) ! 3)"
proof -
  let ?all = "allTransactions (accounts transferData)"
  have a: "?all ! 0 \<in> set ?all" by code_simp
  have b: "?all ! 3 \<in> set ?all" by code_simp
  have m: "transferMatch (?all ! 0) (?all ! 3)" by code_simp
  from transfer_symmetric[OF a b m] a b m show ?thesis by simp
qed

subsection \<open>The groups that the loop forms\<close>

text \<open>
  When the loop over the transactions completes, \<open>subGroups\<close> has one entry for every key
  that some grouped transaction has, and the entry lists the grouped transactions of that
  key in the order of \<open>allTransactions\<close>.
\<close>

lemma update_fresh: "map_of al k = None \<Longrightarrow> AList.update k v al = al @ [(k, v)]"
  by (induction al) (auto split: if_splits)

lemma pushGroup_Inr:
  "pushGroup g k t = Inr g' \<Longrightarrow>
     g' = AList.update k ((case map_of g k of None \<Rightarrow> [] | Some txs \<Rightarrow> txs) @ [t]) g"
  by (auto simp: pushGroup_def update_fresh split: option.splits if_splits)

lemma txStep_groups:
  assumes "txStep m allTxs (s, b, g) t = Inr (s', b', g')"
  shows "g' = (if grouped allTxs t
               then AList.update (groupingKey (description t))
                      ((case map_of g (groupingKey (description t)) of None \<Rightarrow> [] | Some txs \<Rightarrow> txs) @ [t]) g
               else g)"
  using assms
  by (auto simp: txStep_def grouped_def eligible_def Let_def
           split: if_splits sum.splits prod.splits dest: pushGroup_Inr)

lemma membersOf_snoc:
  "membersOf allTxs k (seen @ [t]) =
     membersOf allTxs k seen @ (if grouped allTxs t \<and> groupingKey (description t) = k then [t] else [])"
  by (simp add: membersOf_def)

lemma txStep_lookup:
  assumes step: "txStep m allTxs (s, b, g) t = Inr (s', b', g')"
    and inv: "\<And>k. map_of g k = (if membersOf allTxs k seen = [] then None else Some (membersOf allTxs k seen))"
  shows "map_of g' k = (if membersOf allTxs k (seen @ [t]) = [] then None
                        else Some (membersOf allTxs k (seen @ [t])))"
proof (cases "grouped allTxs t")
  case False
  with txStep_groups[OF step] inv show ?thesis
    by (simp add: membersOf_snoc)
next
  case True
  let ?key = "groupingKey (description t)"
  have g': "g' = AList.update ?key ((case map_of g ?key of None \<Rightarrow> [] | Some txs \<Rightarrow> txs) @ [t]) g"
    using txStep_groups[OF step] True by simp
  have old: "(case map_of g ?key of None \<Rightarrow> [] | Some txs \<Rightarrow> txs) = membersOf allTxs ?key seen"
    by (simp add: inv)
  show ?thesis
    using True by (simp add: g' old update_conv' membersOf_snoc inv)
qed

lemma txStep_distinct:
  assumes "txStep m allTxs (s, b, g) t = Inr (s', b', g')" and "distinct (map fst g)"
  shows "distinct (map fst g')"
  using txStep_groups[OF assms(1)] assms(2) by (simp add: distinct_update)

lemma forEachTx_groups:
  assumes "forEachTx (txStep m allTxs) (s, b, g) ts = Inr (s', b', g')"
    and "distinct (map fst g)"
    and "\<And>k. map_of g k = (if membersOf allTxs k seen = [] then None else Some (membersOf allTxs k seen))"
  shows "distinct (map fst g') \<and>
         (\<forall>k. map_of g' k = (if membersOf allTxs k (seen @ ts) = [] then None
                             else Some (membersOf allTxs k (seen @ ts))))"
  using assms
proof (induction ts arbitrary: s b g seen)
  case Nil
  then show ?case by simp
next
  case (Cons t ts)
  from Cons.prems(1) obtain s1 b1 g1 where
    step: "txStep m allTxs (s, b, g) t = Inr (s1, b1, g1)" and
    rest: "forEachTx (txStep m allTxs) (s1, b1, g1) ts = Inr (s', b', g')"
    by (auto split: sum.splits)
  have d1: "distinct (map fst g1)"
    using txStep_distinct[OF step Cons.prems(2)] .
  have l1: "\<And>k. map_of g1 k = (if membersOf allTxs k (seen @ [t]) = [] then None
                                 else Some (membersOf allTxs k (seen @ [t])))"
    using txStep_lookup[OF step Cons.prems(3)] .
  from Cons.IH[OF rest d1 l1] show ?case by simp
qed

lemma loop_groups:
  assumes "forEachTx (txStep m allTxs) (0, [], []) ts = Inr (s', b', g')"
  shows "distinct (map fst g')"
    and "(k, txs) \<in> set g' \<longleftrightarrow> txs \<noteq> [] \<and> txs = membersOf allTxs k ts"
proof -
  have *: "distinct (map fst g') \<and>
         (\<forall>k. map_of g' k = (if membersOf allTxs k ([] @ ts) = [] then None
                             else Some (membersOf allTxs k ([] @ ts))))"
    by (rule forEachTx_groups[OF assms]) (simp_all add: membersOf_def)
  then show d: "distinct (map fst g')" by simp
  have "(k, txs) \<in> set g' \<longleftrightarrow> map_of g' k = Some txs"
    using d by simp
  also have "\<dots> \<longleftrightarrow> txs \<noteq> [] \<and> txs = membersOf allTxs k ts"
    using * by auto
  finally show "(k, txs) \<in> set g' \<longleftrightarrow> txs \<noteq> [] \<and> txs = membersOf allTxs k ts" .
qed

lemma membersOf_props:
  "t \<in> set (membersOf allTxs k ts) \<Longrightarrow>
     t \<in> set ts \<and> amountNum t < 0 \<and> \<not> isTransfer allTxs t \<and> groupingKey (description t) = k
     \<and> length k \<ge> 3"
  by (auto simp: membersOf_def grouped_def eligible_def)

subsection \<open>Subscription candidates\<close>

lemma foldl_plus_sum_list: "foldl (+) a xs = a + sum_list (xs :: real list)"
  by (induction xs arbitrary: a) simp_all

lemma average_sum_list: "average xs = sum_list xs / real (length xs)"
  by (simp add: average_def foldl_plus_sum_list)

lemma sum_list_insort_key:
  "sum_list (map f (insort_key k x xs)) = (f x :: real) + sum_list (map f xs)"
  by (induction xs) simp_all

lemma sum_list_sort_key:
  "sum_list (map f (sort_key k xs)) = (sum_list (map f xs) :: real)"
  by (induction xs) (simp_all add: sum_list_insort_key)

lemma average_sorted:
  "average (map (\<lambda>t. \<bar>amountNum t\<bar>) (sortByPostedDesc txs)) = groupAverage txs"
  by (simp add: average_sum_list groupAverage_def sortByPostedDesc_def sum_list_sort_key)

lemma sorted_hd_least:
  "sorted (map k ys) \<Longrightarrow> y \<in> set ys \<Longrightarrow> k (hd ys) \<le> (k y :: real)"
  by (cases ys) auto

lemma sorted_last_greatest:
  "sorted (map k ys) \<Longrightarrow> y \<in> set ys \<Longrightarrow> (k y :: real) \<le> k (last ys)"
  by (induction ys) (auto split: if_splits)

lemma sortByPostedDesc_hd:
  assumes "txs \<noteq> []"
  shows "hd (sortByPostedDesc txs) \<in> set txs"
    and "u \<in> set txs \<Longrightarrow> posted u \<le> posted (hd (sortByPostedDesc txs))"
proof -
  let ?ys = "sortByPostedDesc txs"
  have ne: "?ys \<noteq> []" using assms by (auto simp: sortByPostedDesc_def dest: arg_cong[where f=length])
  have "hd ?ys \<in> set ?ys" using ne by simp
  then show "hd ?ys \<in> set txs" by (simp add: sortByPostedDesc_def)
  assume "u \<in> set txs"
  then have "u \<in> set ?ys" by (simp add: sortByPostedDesc_def)
  moreover have "sorted (map (\<lambda>t. - posted t) ?ys)"
    by (simp add: sortByPostedDesc_def)
  ultimately have "- posted (hd ?ys) \<le> - posted u"
    by (rule sorted_hd_least[rotated])
  then show "posted u \<le> posted (hd ?ys)" by simp
qed

lemma sortByPostedDesc_last:
  assumes "txs \<noteq> []"
  shows "last (sortByPostedDesc txs) \<in> set txs"
    and "u \<in> set txs \<Longrightarrow> posted (last (sortByPostedDesc txs)) \<le> posted u"
proof -
  let ?ys = "sortByPostedDesc txs"
  have ne: "?ys \<noteq> []" using assms by (auto simp: sortByPostedDesc_def dest: arg_cong[where f=length])
  have "last ?ys \<in> set ?ys" using ne by simp
  then show "last ?ys \<in> set txs" by (simp add: sortByPostedDesc_def)
  assume "u \<in> set txs"
  then have "u \<in> set ?ys" by (simp add: sortByPostedDesc_def)
  moreover have "sorted (map (\<lambda>t. - posted t) ?ys)"
    by (simp add: sortByPostedDesc_def)
  ultimately have "- posted u \<le> - posted (last ?ys)"
    by (rule sorted_last_greatest[rotated])
  then show "posted (last ?ys) \<le> posted u" by simp
qed

lemma hasTimeSpread_iff:
  assumes "txs \<noteq> []"
  shows "hasTimeSpread (sortByPostedDesc txs) \<longleftrightarrow>
         (\<exists>a\<in>set txs. \<exists>b\<in>set txs. posted a - posted b > 432000)"
proof
  assume "hasTimeSpread (sortByPostedDesc txs)"
  moreover have "posted (last (sortByPostedDesc txs)) \<le> posted (hd (sortByPostedDesc txs))"
    using sortByPostedDesc_hd[OF assms] sortByPostedDesc_last(1)[OF assms] by blast
  ultimately have "posted (hd (sortByPostedDesc txs)) - posted (last (sortByPostedDesc txs)) > 432000"
    by (simp add: hasTimeSpread_def)
  then show "\<exists>a\<in>set txs. \<exists>b\<in>set txs. posted a - posted b > 432000"
    using sortByPostedDesc_hd(1)[OF assms] sortByPostedDesc_last(1)[OF assms] by blast
next
  assume "\<exists>a\<in>set txs. \<exists>b\<in>set txs. posted a - posted b > 432000"
  then obtain a b where ab: "a \<in> set txs" "b \<in> set txs" "posted a - posted b > 432000"
    by blast
  have "posted a \<le> posted (hd (sortByPostedDesc txs))"
    using sortByPostedDesc_hd(2)[OF assms ab(1)] .
  moreover have "posted (last (sortByPostedDesc txs)) \<le> posted b"
    using sortByPostedDesc_last(2)[OF assms ab(2)] .
  ultimately show "hasTimeSpread (sortByPostedDesc txs)"
    using ab(3) by (simp add: hasTimeSpread_def)
qed

lemma consistentAmount_iff:
  "consistentAmount (map (\<lambda>t. \<bar>amountNum t\<bar>) (sortByPostedDesc txs)) avg \<longleftrightarrow>
   (\<forall>t\<in>set txs. (avg \<noteq> 0 \<and> \<bar>\<bar>amountNum t\<bar> - avg\<bar> / avg < 3 / 10) \<or> \<bar>\<bar>amountNum t\<bar> - avg\<bar> < 10)"
  by (simp add: consistentAmount_def list_all_iff sortByPostedDesc_def)

lemma qualifiesGroup_iff:
  "qualifiesGroup txs \<longleftrightarrow>
     ((\<forall>t\<in>set txs. \<bar>\<bar>amountNum t\<bar> - groupAverage txs\<bar> / groupAverage txs < 3 / 10
                   \<or> \<bar>\<bar>amountNum t\<bar> - groupAverage txs\<bar> < 10) \<and>
      (\<exists>a\<in>set txs. \<exists>b\<in>set txs. posted a - posted b > 432000) \<and>
      groupAverage txs > 1)"
  by (simp add: qualifiesGroup_def list_all_iff list_ex_iff)

lemma groupSubscription_eq:
  "groupSubscription (k, txs) =
     (if length txs \<ge> 2 \<and> qualifiesGroup txs
      then [\<lparr> desc = description (hd (sortByPostedDesc txs)), amount = groupAverage txs,
              count = length txs, normKey = k \<rparr>]
      else [])"
proof (cases "length txs \<ge> 2")
  case False
  then show ?thesis by (simp add: groupSubscription_def sortByPostedDesc_def)
next
  case True
  then have ne: "txs \<noteq> []" by auto
  have len: "length (sortByPostedDesc txs) = length txs" by (simp add: sortByPostedDesc_def)
  have q: "(consistentAmount (map (\<lambda>t. \<bar>amountNum t\<bar>) (sortByPostedDesc txs)) (groupAverage txs)
            \<and> hasTimeSpread (sortByPostedDesc txs) \<and> groupAverage txs > 1) = qualifiesGroup txs"
    unfolding consistentAmount_iff hasTimeSpread_iff[OF ne] qualifiesGroup_iff by auto
  show ?thesis
    using True q
    by (simp add: groupSubscription_def Let_def len average_sorted)
qed

lemma groupSubscription_normKey:
  "s \<in> set (groupSubscription (k, txs)) \<Longrightarrow> normKey s = k"
  by (auto simp: groupSubscription_eq split: if_splits)

lemma rawSubscriptions_key:
  "s \<in> set (rawSubscriptions g) \<and> normKey s = k \<longleftrightarrow>
         (\<exists>txs. (k, txs) \<in> set g \<and> s \<in> set (groupSubscription (k, txs)))"
proof
  assume "s \<in> set (rawSubscriptions g) \<and> normKey s = k"
  then obtain k' txs where "(k', txs) \<in> set g" "s \<in> set (groupSubscription (k', txs))" "normKey s = k"
    by (auto simp: rawSubscriptions_def)
  then show "\<exists>txs. (k, txs) \<in> set g \<and> s \<in> set (groupSubscription (k, txs))"
    using groupSubscription_normKey by blast
next
  assume "\<exists>txs. (k, txs) \<in> set g \<and> s \<in> set (groupSubscription (k, txs))"
  then obtain txs where m: "(k, txs) \<in> set g" "s \<in> set (groupSubscription (k, txs))"
    by blast
  have "s \<in> set (rawSubscriptions g)"
    unfolding rawSubscriptions_def using m by (simp only: set_concat set_map) blast
  then show "s \<in> set (rawSubscriptions g) \<and> normKey s = k"
    using groupSubscription_normKey[OF m(2)] by simp
qed

lemma groupAverage_pos:
  assumes "txs \<noteq> []" and "\<forall>t\<in>set txs. amountNum t < 0"
  shows "groupAverage txs > 0"
proof -
  obtain t rest where txs: "txs = t # rest" using assms(1) by (cases txs) auto
  have "0 \<le> sum_list (map (\<lambda>t. \<bar>amountNum t\<bar>) rest)"
    by (rule sum_list_nonneg) auto
  moreover have "\<bar>amountNum t\<bar> > 0" using assms(2) txs by auto
  ultimately have "sum_list (map (\<lambda>t. \<bar>amountNum t\<bar>) txs) > 0"
    using txs by simp
  then show ?thesis using assms(1) by (simp add: groupAverage_def)
qed



text \<open>
  Claim C9. Every group that the loop forms is non-empty and all its members have a
  strictly negative amount, so the average of the absolute amounts, by which
  \<open>consistentAmount\<close> divides, is strictly positive: the quotient is never one by zero.
  Whatever a group reports has an amount above 1, so a group of average 0 reports nothing.
\<close>

theorem average_never_zero:
  assumes loop: "forEachTx (txStep monthAgo allTxs) (0, [], []) allTxs = Inr (s30, sba, subGroups)"
    and grp: "(k, txs) \<in> set subGroups"
  shows "txs \<noteq> [] \<and> (\<forall>t\<in>set txs. amountNum t < 0)
       \<and> average (map (\<lambda>t. \<bar>amountNum t\<bar>) (sortByPostedDesc txs)) > 0
       \<and> (\<forall>s\<in>set (groupSubscription (k, txs)). amount s > 1)"
proof -
  have mem: "txs = membersOf allTxs k allTxs" and ne: "txs \<noteq> []"
    using loop_groups(2)[OF loop] grp by auto
  have neg: "\<forall>t\<in>set txs. amountNum t < 0"
    using membersOf_props[of _ allTxs k allTxs] mem by blast
  have "groupAverage txs > 0" using groupAverage_pos[OF ne neg] .
  then have "average (map (\<lambda>t. \<bar>amountNum t\<bar>) (sortByPostedDesc txs)) > 0"
    by (simp add: average_sorted)
  moreover have "\<forall>s\<in>set (groupSubscription (k, txs)). amount s > 1"
    by (auto simp: groupSubscription_eq qualifiesGroup_iff split: if_splits)
  ultimately show ?thesis using ne neg by simp
qed

theorem average_never_zero_witness:
  "(case forEachTx (txStep (1700000000 - 30 * 24 * 60 * 60) demoTransactions) (0, [], [])
           demoTransactions of
      Inl e \<Rightarrow> False
    | Inr (s30, sba, subGroups) \<Rightarrow> (''whole foods'', wholeFoods) \<in> set subGroups)
   \<and> wholeFoods \<noteq> []
   \<and> average (map (\<lambda>t. \<bar>amountNum t\<bar>) (sortByPostedDesc wholeFoods)) > 0"
proof -
  let ?loop = "forEachTx (txStep (1700000000 - 30 * 24 * 60 * 60) demoTransactions) (0, [], [])
                 demoTransactions"
  have ev: "(case ?loop of Inl e \<Rightarrow> False
             | Inr (s30, sba, subGroups) \<Rightarrow> (''whole foods'', wholeFoods) \<in> set subGroups)"
    by code_simp
  then obtain s30 sba subGroups where
    loop: "?loop = Inr (s30, sba, subGroups)" and
    grp: "(''whole foods'', wholeFoods) \<in> set subGroups"
    by (auto split: sum.splits)
  from average_never_zero[OF loop grp] loop grp show ?thesis by simp
qed

subsection \<open>The reported subscriptions\<close>

lemma set_dedupByNorm: "set (dedupByNorm seen subs) \<subseteq> set subs"
  by (induction subs arbitrary: seen) auto

lemma rawSubscriptions_count:
  "s \<in> set (rawSubscriptions g) \<Longrightarrow> count s \<ge> 2"
  by (auto simp: rawSubscriptions_def groupSubscription_eq split: if_splits)

lemma set_topSubscriptions: "set (topSubscriptions subs) \<subseteq> set subs"
  using set_take_subset[of 20 "sortByAmountDesc subs"]
  by (simp add: topSubscriptions_def sortByAmountDesc_def)

lemma sorted_topSubscriptions:
  "sorted_wrt (\<lambda>a b. amount a \<ge> amount b) (topSubscriptions subs)"
proof -
  have "sorted (map (\<lambda>s. - amount s) (sortByAmountDesc subs))"
    by (simp add: sortByAmountDesc_def)
  then have "sorted_wrt (\<lambda>a b. amount a \<ge> amount b) (sortByAmountDesc subs)"
    by (simp add: sorted_map)
  then show ?thesis
    unfolding topSubscriptions_def by (rule sorted_wrt_take)
qed

lemma filter_take_prefix:
  "filter P (take n xs) = take (length (filter P (take n xs))) (filter P xs)"
proof (induction xs arbitrary: n)
  case Nil
  show ?case by simp
next
  case (Cons x xs)
  show ?case
  proof (cases n)
    case 0
    then show ?thesis by simp
  next
    case (Suc m)
    with Cons.IH[of m] show ?thesis by simp
  qed
qed

lemma topSubscriptions_stable:
  "filter (\<lambda>s. amount s = a) (topSubscriptions subs) =
     take (length (filter (\<lambda>s. amount s = a) (topSubscriptions subs)))
          (filter (\<lambda>s. amount s = a) subs)"
proof -
  have "filter (\<lambda>s. - amount s = - a) (sortByAmountDesc subs) = filter (\<lambda>s. - amount s = - a) subs"
    unfolding sortByAmountDesc_def by (rule sort_key_stable)
  then have st: "filter (\<lambda>s. amount s = a) (sortByAmountDesc subs) = filter (\<lambda>s. amount s = a) subs"
    by simp
  show ?thesis
    unfolding topSubscriptions_def
    using filter_take_prefix[of "\<lambda>s. amount s = a" 20 "sortByAmountDesc subs"] st by simp
qed

lemma stats_subscriptions:
  assumes "stats now dat = Inr r"
  shows "subscriptions r = [] \<or> (\<exists>g. subscriptions r = topSubscriptions (dedupSubscriptions (rawSubscriptions g)))"
  using assms
  by (auto simp: stats_def Let_def split: option.splits prod.splits sum.splits)

text \<open>
  The keys of \<open>subGroups\<close> are distinct, so the dedup step removes nothing, and with at
  most 20 candidates every candidate is reported.
\<close>

lemma dedupByNorm_distinct:
  "distinct (map normKey xs) \<Longrightarrow> set seen \<inter> normKey ` set xs = {} \<Longrightarrow> dedupByNorm seen xs = xs"
  by (induction xs arbitrary: seen) auto

lemma groupSubscription_cases:
  "groupSubscription x = [] \<or> (\<exists>s. groupSubscription x = [s] \<and> normKey s = fst x)"
  by (cases x) (auto simp: groupSubscription_eq)

lemma rawSubscriptions_keys:
  "normKey ` set (rawSubscriptions g) \<subseteq> fst ` set g"
proof
  fix k assume "k \<in> normKey ` set (rawSubscriptions g)"
  then obtain s where "s \<in> set (rawSubscriptions g)" "normKey s = k" by auto
  then obtain txs where "(k, txs) \<in> set g"
    using rawSubscriptions_key[of s g k] by blast
  then show "k \<in> fst ` set g" by force
qed

lemma distinct_rawSubscriptions:
  "distinct (map fst g) \<Longrightarrow> distinct (map normKey (rawSubscriptions g))"
proof (induction g)
  case Nil
  show ?case by (simp add: rawSubscriptions_def)
next
  case (Cons x g)
  have split: "rawSubscriptions (x # g) = groupSubscription x @ rawSubscriptions g"
    by (simp add: rawSubscriptions_def)
  have rest: "distinct (map normKey (rawSubscriptions g))" using Cons by simp
  have fresh: "fst x \<notin> normKey ` set (rawSubscriptions g)"
    using Cons.prems rawSubscriptions_keys[of g] by auto
  from groupSubscription_cases[of x] show ?case
  proof
    assume "groupSubscription x = []"
    then show ?thesis using split rest by simp
  next
    assume "\<exists>s. groupSubscription x = [s] \<and> normKey s = fst x"
    then show ?thesis using split rest fresh by auto
  qed
qed

lemma distinct_map_sort_key:
  "distinct (map f xs) \<Longrightarrow> distinct (map f (sort_key k xs))"
  by (simp add: distinct_map)

lemma all_reported_when_at_most_20:
  assumes "distinct (map fst g)" and "length (rawSubscriptions g) \<le> 20"
  shows "set (topSubscriptions (dedupSubscriptions (rawSubscriptions g))) = set (rawSubscriptions g)"
proof -
  have "distinct (map normKey (sortByCountDesc (rawSubscriptions g)))"
    unfolding sortByCountDesc_def
    using distinct_rawSubscriptions[OF assms(1)] by (rule distinct_map_sort_key)
  then have d: "dedupSubscriptions (rawSubscriptions g) = sortByCountDesc (rawSubscriptions g)"
    unfolding dedupSubscriptions_def by (simp add: dedupByNorm_distinct)
  have "length (sortByAmountDesc (sortByCountDesc (rawSubscriptions g))) \<le> 20"
    using assms(2) by (simp add: sortByAmountDesc_def sortByCountDesc_def)
  then show ?thesis
    by (simp add: d topSubscriptions_def sortByAmountDesc_def sortByCountDesc_def)
qed

text \<open>
  Claim C6, as stated, asks for a strictly descending list. Two merchants with the same
  average amount are both reported, next to each other: the list is not strictly
  descending.
\<close>

theorem subscriptions_strict_counterexample:
  "stats 1700000000 (Some tieData) =
     Inr \<lparr> netWorth = 5240.50, assets = 5240.50, liabilities = 0, spending30d = 360,
           spendingByAccount = [(''Total Checking'', Number 360)],
           subscriptions =
             [\<lparr> desc = ''Whole Foods Market'', amount = 120, count = 2,
                 normKey = ''whole foods'' \<rparr>,
              \<lparr> desc = ''Blue Bottle Coffee'', amount = 120, count = 2,
                 normKey = ''blue bottle'' \<rparr>] \<rparr>
   \<and> \<not> sorted_wrt (\<lambda>a b. amount a > amount b)
         [\<lparr> desc = ''Whole Foods Market'', amount = 120, count = 2,
             normKey = ''whole foods'' \<rparr>,
          \<lparr> desc = ''Blue Bottle Coffee'', amount = 120, count = 2,
             normKey = ''blue bottle'' \<rparr>]"
  by code_simp

text \<open>
  Claim C6, amended. Every report of \<open>stats\<close> lists at most 20 subscriptions, in
  non-increasing order of amount, each with a count of at least 2. The last step (sort by
  amount, keep 20) is stable: the subscriptions of one amount that it keeps are an initial
  piece of those of its input, in the input's order.
\<close>

theorem subscriptions_top20:
  "(stats now dat = Inr r \<longrightarrow>
      length (subscriptions r) \<le> 20
      \<and> sorted_wrt (\<lambda>a b. amount a \<ge> amount b) (subscriptions r)
      \<and> (\<forall>s\<in>set (subscriptions r). count s \<ge> 2))
   \<and> filter (\<lambda>s. amount s = a) (topSubscriptions subs) =
       take (length (filter (\<lambda>s. amount s = a) (topSubscriptions subs)))
            (filter (\<lambda>s. amount s = a) subs)"
proof (intro conjI impI)
  assume st: "stats now dat = Inr r"
  from stats_subscriptions[OF st] show "length (subscriptions r) \<le> 20"
    by (auto simp: topSubscriptions_def)
  from stats_subscriptions[OF st]
  show "sorted_wrt (\<lambda>a b. amount a \<ge> amount b) (subscriptions r)"
    using sorted_topSubscriptions by auto
  from stats_subscriptions[OF st]
  show "\<forall>s\<in>set (subscriptions r). count s \<ge> 2"
  proof
    assume "subscriptions r = []"
    then show ?thesis by simp
  next
    assume "\<exists>g. subscriptions r = topSubscriptions (dedupSubscriptions (rawSubscriptions g))"
    then obtain g where
      g: "subscriptions r = topSubscriptions (dedupSubscriptions (rawSubscriptions g))" ..
    have "set (subscriptions r) \<subseteq> set (rawSubscriptions g)"
      unfolding g dedupSubscriptions_def sortByCountDesc_def
      using set_topSubscriptions set_dedupByNorm by fastforce
    then show ?thesis using rawSubscriptions_count by blast
  qed
next
  show "filter (\<lambda>s. amount s = a) (topSubscriptions subs) =
       take (length (filter (\<lambda>s. amount s = a) (topSubscriptions subs)))
            (filter (\<lambda>s. amount s = a) subs)"
    by (rule topSubscriptions_stable)
qed

theorem subscriptions_top20_witness:
  "(case stats 1700000000 (Some (getDummyData 1700000000)) of
      Inl e \<Rightarrow> False
    | Inr r \<Rightarrow>
        map amount (subscriptions r) = [120, 85]
        \<and> length (subscriptions r) \<le> 20
        \<and> sorted_wrt (\<lambda>a b. amount a \<ge> amount b) (subscriptions r)
        \<and> list_all (\<lambda>s. count s \<ge> 2) (subscriptions r))"
proof -
  have "case stats 1700000000 (Some (getDummyData 1700000000)) of
          Inl e \<Rightarrow> False | Inr r \<Rightarrow> map amount (subscriptions r) = [120, 85]"
    by code_simp
  then obtain r where
    st: "stats 1700000000 (Some (getDummyData 1700000000)) = Inr r" and
    am: "map amount (subscriptions r) = [120, 85]"
    by (auto split: sum.splits)
  from subscriptions_top20[of 1700000000 "Some (getDummyData 1700000000)" r] st am
  show ?thesis by (simp add: list_all_iff)
qed

subsection \<open>The grouping key\<close>

lemma splitWhen_nonempty [simp]: "splitWhen P s \<noteq> []"
  by (induction s) (auto split: list.splits)

lemma letter_not_whitespace: "isLowerLetter c \<Longrightarrow> \<not> isWhitespace c"
  by (auto simp: isLowerLetter_def isWhitespace_def)

lemma space_whitespace [simp]: "isWhitespace (CHR '' '')"
  by (simp add: isWhitespace_def)

lemma splitWhen_replaceNonLetters:
  "splitWhen isWhitespace (replaceNonLetters s) = splitWhen (\<lambda>c. \<not> isLowerLetter c) s"
proof (induction s)
  case Nil
  show ?case by (simp add: replaceNonLetters_def)
next
  case (Cons c cs)
  have IH: "splitWhen isWhitespace (map (\<lambda>c. if isLowerLetter c \<or> isWhitespace c then c else CHR '' '') cs)
            = splitWhen (\<lambda>c. \<not> isLowerLetter c) cs"
    using Cons.IH by (simp add: replaceNonLetters_def)
  show ?case
    using letter_not_whitespace[of c]
    by (auto simp: replaceNonLetters_def IH)
qed

lemma nonEmpty_splitWhen_dropWhile:
  "filter (\<lambda>w. w \<noteq> []) (splitWhen P (dropWhile P s)) = filter (\<lambda>w. w \<noteq> []) (splitWhen P s)"
  by (induction s) auto

lemma nonEmpty_hd_tl:
  "xs \<noteq> [] \<Longrightarrow> filter (\<lambda>w. w \<noteq> []) xs = (if hd xs = [] then [] else [hd xs]) @ filter (\<lambda>w. w \<noteq> []) (tl xs)"
  by (cases xs) auto

lemma splitWhen_collapse:
  "hd (splitWhen isWhitespace (collapseWhitespace s)) = hd (splitWhen isWhitespace s) \<and>
   filter (\<lambda>w. w \<noteq> []) (tl (splitWhen isWhitespace (collapseWhitespace s)))
     = filter (\<lambda>w. w \<noteq> []) (tl (splitWhen isWhitespace s))"
proof (induction s rule: collapseWhitespace.induct)
  case 1
  show ?case by simp
next
  case (2 c cs)
  show ?case
  proof (cases "isWhitespace c")
    case True
    have "filter (\<lambda>w. w \<noteq> []) (splitWhen isWhitespace (collapseWhitespace (dropWhile isWhitespace cs)))
          = filter (\<lambda>w. w \<noteq> []) (splitWhen isWhitespace (dropWhile isWhitespace cs))"
      using "2.IH"(1)[OF True]
      by (simp add: nonEmpty_hd_tl)
    then show ?thesis
      using True by (simp add: nonEmpty_splitWhen_dropWhile)
  next
    case False
    then show ?thesis
      using "2.IH"(2)[OF False]
      by (auto split: list.splits)
  qed
qed

lemma nonEmpty_splitWhen_collapse:
  "filter (\<lambda>w. w \<noteq> []) (splitWhen isWhitespace (collapseWhitespace s))
     = filter (\<lambda>w. w \<noteq> []) (splitWhen isWhitespace s)"
  using splitWhen_collapse[of s] by (simp add: nonEmpty_hd_tl)

lemma collapse_only_spaces:
  "c \<in> set (collapseWhitespace s) \<Longrightarrow> isWhitespace c \<Longrightarrow> c = CHR '' ''"
  by (induction s rule: collapseWhitespace.induct) (auto split: if_splits)

lemma splitWhen_cong:
  "(\<And>c. c \<in> set s \<Longrightarrow> P c = Q c) \<Longrightarrow> splitWhen P s = splitWhen Q s"
  by (induction s) simp_all

lemma splitOn_space:
  assumes "\<forall>c\<in>set s. isWhitespace c \<longrightarrow> c = CHR '' ''"
  shows "splitOn (CHR '' '') s = splitWhen isWhitespace s"
  unfolding splitOn_def
proof (rule splitWhen_cong)
  fix c assume "c \<in> set s"
  with assms have "isWhitespace c \<longrightarrow> c = CHR '' ''" by blast
  moreover have "isWhitespace (CHR '' '')" by (rule space_whitespace)
  ultimately show "(c = CHR '' '') = isWhitespace c" by blast
qed

lemma splitWhen_snoc_sep:
  "P c \<Longrightarrow> splitWhen P (s @ [c]) = splitWhen P s @ [[]]"
  by (induction s) (auto split: list.splits)

lemma splitWhen_trailing:
  "(\<forall>c\<in>set ws. P c) \<Longrightarrow> splitWhen P (s @ ws) = splitWhen P s @ replicate (length ws) []"
proof (induction ws arbitrary: s)
  case Nil
  show ?case by simp
next
  case (Cons w ws)
  have "splitWhen P (s @ w # ws) = splitWhen P ((s @ [w]) @ ws)" by simp
  also have "\<dots> = splitWhen P (s @ [w]) @ replicate (length ws) []"
    using Cons by (simp del: append_assoc)
  also have "\<dots> = splitWhen P s @ replicate (Suc (length ws)) []"
    using Cons.prems by (simp add: splitWhen_snoc_sep replicate_app_Cons_same)
  finally show ?case by simp
qed

lemma nonEmpty_replicate [simp]: "filter (\<lambda>w. w \<noteq> []) (replicate n []) = []"
  by (induction n) auto

lemma nonEmpty_splitWhen_dropTrailing:
  "filter (\<lambda>w. w \<noteq> []) (splitWhen P (rev (dropWhile P (rev s))))
     = filter (\<lambda>w. w \<noteq> []) (splitWhen P s)"
proof -
  have "rev s = takeWhile P (rev s) @ dropWhile P (rev s)" by simp
  then have "s = rev (dropWhile P (rev s)) @ rev (takeWhile P (rev s))"
    by (metis rev_append rev_rev_ident)
  moreover have "\<forall>c\<in>set (rev (takeWhile P (rev s))). P c"
    by (auto dest: set_takeWhileD)
  ultimately have "splitWhen P s = splitWhen P (rev (dropWhile P (rev s)))
                      @ replicate (length (rev (takeWhile P (rev s)))) []"
    using splitWhen_trailing by metis
  then show ?thesis by simp
qed

lemma nonEmpty_splitWhen_trim:
  "filter (\<lambda>w. w \<noteq> []) (splitWhen isWhitespace (trim s))
     = filter (\<lambda>w. w \<noteq> []) (splitWhen isWhitespace s)"
  by (simp add: trim_def nonEmpty_splitWhen_dropTrailing nonEmpty_splitWhen_dropWhile)

lemma set_trim: "set (trim s) \<subseteq> set s"
  unfolding trim_def
  by (metis (no_types, lifting) set_dropWhileD set_rev subsetI)

lemma keepWord_nonEmpty: "filter keepWord xs = filter keepWord (filter (\<lambda>w. w \<noteq> []) xs)"
  by (induction xs) (auto simp: keepWord_def)

lemma words_are_letterRuns:
  "filter keepWord (splitOn (CHR '' '') (cleanDesc d)) = filter keepWord (letterRuns (toLowerCase d))"
proof -
  let ?s1 = "replaceNonLetters (toLowerCase d)"
  let ?s2 = "collapseWhitespace ?s1"
  have sp: "\<forall>c\<in>set (trim ?s2). isWhitespace c \<longrightarrow> c = CHR '' ''"
    using set_trim[of ?s2] collapse_only_spaces by blast
  have "filter keepWord (splitOn (CHR '' '') (cleanDesc d))
        = filter keepWord (splitWhen isWhitespace (trim ?s2))"
    by (simp add: cleanDesc_def splitOn_space[OF sp])
  also have "\<dots> = filter keepWord (filter (\<lambda>w. w \<noteq> []) (splitWhen isWhitespace (trim ?s2)))"
    by (rule keepWord_nonEmpty)
  also have "\<dots> = filter keepWord (filter (\<lambda>w. w \<noteq> []) (splitWhen isWhitespace ?s1))"
    by (simp only: nonEmpty_splitWhen_trim nonEmpty_splitWhen_collapse)
  also have "\<dots> = filter keepWord (letterRuns (toLowerCase d))"
    by (simp only: splitWhen_replaceNonLetters letterRuns_def)
  finally show ?thesis .
qed

text \<open>
  A key has lower-case letters and spaces only; \<open>constructor\<close> is the one property name
  of \<^verbatim>\<open>Object.prototype\<close> of that form.
\<close>

lemma splitWhen_chars: "w \<in> set (splitWhen P s) \<Longrightarrow> c \<in> set w \<Longrightarrow> \<not> P c"
proof (induction s arbitrary: w)
  case Nil
  then show ?case by simp
next
  case (Cons x xs)
  show ?case
  proof (cases "P x")
    case True
    with Cons.prems Cons.IH show ?thesis by auto
  next
    case False
    obtain v vs where sp: "splitWhen P xs = v # vs"
      using splitWhen_nonempty[of P xs] by (cases "splitWhen P xs") auto
    with False Cons.prems have "w = x # v \<or> w \<in> set vs" by auto
    then show ?thesis
    proof
      assume "w = x # v"
      with Cons.prems(2) have "c = x \<or> c \<in> set v" by auto
      then show ?thesis using False Cons.IH[of v] sp by auto
    next
      assume "w \<in> set vs"
      then show ?thesis using Cons.IH[of w] Cons.prems(2) sp by auto
    qed
  qed
qed

lemma letterRuns_chars: "w \<in> set (letterRuns s) \<Longrightarrow> c \<in> set w \<Longrightarrow> isLowerLetter c"
  using splitWhen_chars[of w "\<lambda>c. \<not> isLowerLetter c" s c] by (auto simp: letterRuns_def)

lemma joinWith_chars:
  "c \<in> set (joinWith sep ws) \<Longrightarrow> c \<in> set sep \<or> (\<exists>w\<in>set ws. c \<in> set w)"
  by (induction sep ws rule: joinWith.induct) auto

lemma groupingKey_chars:
  assumes "c \<in> set (groupingKey d)"
  shows "isLowerLetter c \<or> c = CHR '' ''"
proof -
  let ?ws = "take 2 (filter keepWord (letterRuns (toLowerCase d)))"
  have "groupingKey d = joinWith '' '' ?ws"
    by (simp add: groupingKey_def words_are_letterRuns)
  with assms joinWith_chars[of c "'' ''" ?ws]
  have "c = CHR '' '' \<or> (\<exists>w\<in>set ?ws. c \<in> set w)" by auto
  moreover have "set ?ws \<subseteq> set (letterRuns (toLowerCase d))"
    using set_take_subset[of 2 "filter keepWord (letterRuns (toLowerCase d))"] by auto
  ultimately show ?thesis using letterRuns_chars by blast
qed

lemma inherited_lowercase_names:
  "filter (list_all (\<lambda>c. isLowerLetter c \<or> c = CHR '' '')) objectPrototypeNames = [''constructor'']"
  by code_simp

lemma inherited_lowercase_name:
  assumes "k \<in> set objectPrototypeNames" and "list_all (\<lambda>c. isLowerLetter c \<or> c = CHR '' '') k"
  shows "k = ''constructor''"
proof -
  have "k \<in> set (filter (list_all (\<lambda>c. isLowerLetter c \<or> c = CHR '' '')) objectPrototypeNames)"
    using assms by simp
  then show ?thesis unfolding inherited_lowercase_names by simp
qed

lemma groupingKey_inherited:
  "groupingKey d \<in> set objectPrototypeNames \<longleftrightarrow> groupingKey d = ''constructor''"
proof
  assume "groupingKey d \<in> set objectPrototypeNames"
  moreover have "list_all (\<lambda>c. isLowerLetter c \<or> c = CHR '' '') (groupingKey d)"
    using groupingKey_chars by (auto simp: list_all_iff)
  ultimately show "groupingKey d = ''constructor''" by (rule inherited_lowercase_name)
next
  assume "groupingKey d = ''constructor''"
  then show "groupingKey d \<in> set objectPrototypeNames"
    by (simp add: objectPrototypeNames_def)
qed

text \<open>
  Claim C5, as stated, strips the characters that are neither letters nor white space.
  The code replaces each of them by a space, so such a character separates two words:
  for \<^verbatim>\<open>Netflix.com\<close> the code's key is \<open>netflix\<close> (the word \<open>com\<close> is a stop word), where
  stripping gives the one word \<open>netflixcom\<close>.
\<close>

theorem groupingKey_strip_counterexample:
  "groupingKey ''Netflix.com'' = ''netflix'' \<and> specGroupingKey ''Netflix.com'' = ''netflixcom''"
  by code_simp

text \<open>
  Claim C5, amended. The key of a description is made of the words of its lower-cased
  text, a word being a maximal run of the letters \<open>a\<close> to \<open>z\<close> (every other character
  separates words, as the replacement by a space, the collapsing, the trimming and the
  split at spaces achieve together): the words of length at most 2 and the stop words are
  dropped, and the first two that remain are joined by a space. When the loop completes, a
  transaction stands in the group of a key exactly when it is one of the transactions,
  has a negative amount, is not a transfer, and the key is its own and has at least 3
  characters; with a shorter key it is in no group.
\<close>

theorem groupingKey_letter_runs:
  "groupingKey d = joinWith '' '' (take 2 (filter keepWord (letterRuns (toLowerCase d))))
   \<and> (forEachTx (txStep monthAgo allTxs) (0, [], []) allTxs = Inr (s30, sba, subGroups) \<longrightarrow>
        ((\<exists>txs. (k, txs) \<in> set subGroups \<and> t \<in> set txs) \<longleftrightarrow>
           (t \<in> set allTxs \<and> amountNum t < 0 \<and> \<not> isTransfer allTxs t \<and>
            k = groupingKey (description t) \<and> length (groupingKey (description t)) \<ge> 3)))"
proof (intro conjI impI)
  show "groupingKey d = joinWith '' '' (take 2 (filter keepWord (letterRuns (toLowerCase d))))"
    by (simp add: groupingKey_def words_are_letterRuns)
next
  assume loop: "forEachTx (txStep monthAgo allTxs) (0, [], []) allTxs = Inr (s30, sba, subGroups)"
  have "(\<exists>txs. (k, txs) \<in> set subGroups \<and> t \<in> set txs) \<longleftrightarrow> t \<in> set (membersOf allTxs k allTxs)"
    using loop_groups(2)[OF loop] by (metis empty_iff empty_set)
  also have "\<dots> \<longleftrightarrow> (t \<in> set allTxs \<and> amountNum t < 0 \<and> \<not> isTransfer allTxs t \<and>
            k = groupingKey (description t) \<and> length (groupingKey (description t)) \<ge> 3)"
    by (auto simp: membersOf_def grouped_def eligible_def)
  finally show "(\<exists>txs. (k, txs) \<in> set subGroups \<and> t \<in> set txs) \<longleftrightarrow>
           (t \<in> set allTxs \<and> amountNum t < 0 \<and> \<not> isTransfer allTxs t \<and>
            k = groupingKey (description t) \<and> length (groupingKey (description t)) \<ge> 3)" .
qed

theorem groupingKey_letter_runs_witness:
  "groupingKey ''Whole Foods Market'' = ''whole foods''
   \<and> letterRuns (toLowerCase ''Whole Foods Market'') = [''whole'', ''foods'', ''market'']
   \<and> (case forEachTx (txStep (1700000000 - 30 * 24 * 60 * 60) demoTransactions) (0, [], [])
              demoTransactions of
         Inl e \<Rightarrow> False
       | Inr (s30, sba, subGroups) \<Rightarrow>
           (\<exists>txs. (''whole foods'', txs) \<in> set subGroups \<and> hd demoTransactions \<in> set txs))"
proof -
  let ?loop = "forEachTx (txStep (1700000000 - 30 * 24 * 60 * 60) demoTransactions) (0, [], [])
                 demoTransactions"
  have "case ?loop of Inl e \<Rightarrow> False | Inr x \<Rightarrow> True" by code_simp
  then obtain s30 sba subGroups where loop: "?loop = Inr (s30, sba, subGroups)"
    by (auto split: sum.splits)
  have runs: "letterRuns (toLowerCase ''Whole Foods Market'') = [''whole'', ''foods'', ''market'']"
    by code_simp
  have t: "hd demoTransactions \<in> set demoTransactions \<and> amountNum (hd demoTransactions) < 0
           \<and> \<not> isTransfer demoTransactions (hd demoTransactions)
           \<and> ''whole foods'' = groupingKey (description (hd demoTransactions))
           \<and> length (groupingKey (description (hd demoTransactions))) \<ge> 3"
    by code_simp
  have key: "groupingKey ''Whole Foods Market''
             = joinWith '' '' (take 2 (filter keepWord (letterRuns (toLowerCase ''Whole Foods Market''))))"
    using groupingKey_letter_runs[of "''Whole Foods Market''"] by blast
  have "groupingKey ''Whole Foods Market'' = ''whole foods''"
    unfolding key runs by code_simp
  moreover have "\<exists>txs. (''whole foods'', txs) \<in> set subGroups \<and> hd demoTransactions \<in> set txs"
    using groupingKey_letter_runs[of "''Whole Foods Market''" "1700000000 - 30 * 24 * 60 * 60"
        demoTransactions s30 sba subGroups "''whole foods''" "hd demoTransactions"] loop t
    by blast
  ultimately show ?thesis using runs loop by simp
qed

subsection \<open>Spending of the last 30 days\<close>

text \<open>
  When the loop completes, \<open>spending30d\<close> is the sum of \<open>|amount|\<close> over the transactions
  that are at most 30 days old, negative and not transfers. The entry of
  \<open>spendingByAccount\<close> under an account name is the same sum over the transactions of the
  accounts of that name, as long as the name is not a property name of
  \<^verbatim>\<open>Object.prototype\<close>.
\<close>

lemma txStep_spending:
  assumes "txStep m allTxs (s, b, g) t = Inr (s', b', g')"
  shows "s' = s + (if spend30 m allTxs t then \<bar>amountNum t\<bar> else 0)"
    and "b' = (if spend30 m allTxs t then addSpending b (accountName t) \<bar>amountNum t\<bar> else b)"
  using assms
  by (auto simp: txStep_def spend30_def Let_def split: if_splits sum.splits prod.splits)

lemma loop_spending30d:
  assumes "forEachTx (txStep m allTxs) (s, b, g) ts = Inr (s', b', g')"
  shows "s' = s + sum_list (map (\<lambda>t. \<bar>amountNum t\<bar>) (filter (spend30 m allTxs) ts))"
  using assms
proof (induction ts arbitrary: s b g)
  case Nil
  then show ?case by simp
next
  case (Cons t ts)
  from Cons.prems obtain s1 b1 g1 where
    step: "txStep m allTxs (s, b, g) t = Inr (s1, b1, g1)" and
    rest: "forEachTx (txStep m allTxs) (s1, b1, g1) ts = Inr (s', b', g')"
    by (auto split: sum.splits)
  from Cons.IH[OF rest] txStep_spending(1)[OF step] show ?case by simp
qed

lemma entriesTyped_lookup:
  assumes "entriesTyped m" and "map_of m k = Some e"
  shows "(e = Text) = (k \<in> set objectPrototypeNames)"
proof -
  have "(k, e) \<in> set m" using assms(2) by (rule map_of_SomeD)
  then show ?thesis using assms(1) by (auto simp: entriesTyped_def list_all_iff)
qed

lemma sumValues_update_Number:
  "map_of m k = Some (Number v) \<Longrightarrow>
     sumValues (AList.update k (Number (v + a)) m) = sumValues m + a"
  by (induction m) (auto simp: sumValues_def numberOf_def split: if_splits)

lemma entriesTyped_update_Number:
  "entriesTyped m \<Longrightarrow> k \<notin> set objectPrototypeNames \<Longrightarrow>
     entriesTyped (AList.update k (Number x) m)"
  by (induction m) (auto simp: entriesTyped_def)

lemma proto_in_names: "''__proto__'' \<in> set objectPrototypeNames"
  by (simp add: objectPrototypeNames_def)

lemma addSpending_sumValues:
  assumes "entriesTyped m"
  shows "sumValues (addSpending m k a) =
           sumValues m + (if k \<in> set objectPrototypeNames then 0 else a)"
proof (cases "map_of m k")
  case None
  then show ?thesis
    using proto_in_names
    by (auto simp: addSpending_def sumValues_def numberOf_def)
next
  case (Some e)
  show ?thesis
  proof (cases e)
    case (Number v)
    then have "k \<notin> set objectPrototypeNames"
      using entriesTyped_lookup[OF assms Some] by simp
    then show ?thesis
      using Some Number sumValues_update_Number[of m k v a]
      by (simp add: addSpending_def)
  next
    case Text
    then have "k \<in> set objectPrototypeNames"
      using entriesTyped_lookup[OF assms Some] by simp
    then show ?thesis using Some Text by (simp add: addSpending_def)
  qed
qed

lemma addSpending_entriesTyped:
  assumes "entriesTyped m"
  shows "entriesTyped (addSpending m k a)"
proof (cases "map_of m k")
  case None
  then show ?thesis
    using assms by (auto simp: addSpending_def entriesTyped_def)
next
  case (Some e)
  show ?thesis
  proof (cases e)
    case (Number v)
    then have "k \<notin> set objectPrototypeNames"
      using entriesTyped_lookup[OF assms Some] by simp
    then show ?thesis
      using Some Number assms by (simp add: addSpending_def entriesTyped_update_Number)
  next
    case Text
    then show ?thesis using Some assms by (simp add: addSpending_def)
  qed
qed

lemma loop_sumValues:
  assumes "forEachTx (txStep m allTxs) (s, b, g) ts = Inr (s', b', g')"
    and "entriesTyped b"
  shows "entriesTyped b' \<and>
         sumValues b' = sumValues b +
           sum_list (map (\<lambda>t. \<bar>amountNum t\<bar>)
             (filter (\<lambda>t. spend30 m allTxs t \<and> accountName t \<notin> set objectPrototypeNames) ts))"
  using assms
proof (induction ts arbitrary: s b g)
  case Nil
  then show ?case by simp
next
  case (Cons t ts)
  from Cons.prems(1) obtain s1 b1 g1 where
    step: "txStep m allTxs (s, b, g) t = Inr (s1, b1, g1)" and
    rest: "forEachTx (txStep m allTxs) (s1, b1, g1) ts = Inr (s', b', g')"
    by (auto split: sum.splits)
  have b1: "b1 = (if spend30 m allTxs t then addSpending b (accountName t) \<bar>amountNum t\<bar> else b)"
    using txStep_spending(2)[OF step] .
  have t1: "entriesTyped b1"
    using b1 Cons.prems(2) addSpending_entriesTyped by simp
  have s1: "sumValues b1 = sumValues b +
       (if spend30 m allTxs t \<and> accountName t \<notin> set objectPrototypeNames then \<bar>amountNum t\<bar> else 0)"
    using b1 addSpending_sumValues[OF Cons.prems(2)] by simp
  from Cons.IH[OF rest t1] s1 show ?case by simp
qed

lemma map_of_addSpending:
  "map_of (addSpending m k a) k' =
     (if k' = k then
        (case map_of m k of
           Some (Number v) \<Rightarrow> Some (Number (v + a))
         | Some Text \<Rightarrow> Some Text
         | None \<Rightarrow> if k = ''__proto__'' then None
                   else if k \<in> set objectPrototypeNames then Some Text
                   else Some (Number a))
      else map_of m k')"
  by (auto simp: addSpending_def update_conv' map_add_def split: option.splits entry.splits)

lemma loop_spendingByAccount:
  assumes "forEachTx (txStep m allTxs) (s, b, g) ts = Inr (s', b', g')"
    and "k \<notin> set objectPrototypeNames"
    and "map_of b k = (if spentOn m allTxs k seen = [] then None
                       else Some (Number (sum_list (map (\<lambda>t. \<bar>amountNum t\<bar>) (spentOn m allTxs k seen)))))"
  shows "map_of b' k = (if spentOn m allTxs k (seen @ ts) = [] then None
           else Some (Number (sum_list (map (\<lambda>t. \<bar>amountNum t\<bar>) (spentOn m allTxs k (seen @ ts))))))"
  using assms
proof (induction ts arbitrary: s b g seen)
  case Nil
  then show ?case by simp
next
  case (Cons t ts)
  from Cons.prems(1) obtain s1 b1 g1 where
    step: "txStep m allTxs (s, b, g) t = Inr (s1, b1, g1)" and
    rest: "forEachTx (txStep m allTxs) (s1, b1, g1) ts = Inr (s', b', g')"
    by (auto split: sum.splits)
  have b1: "b1 = (if spend30 m allTxs t then addSpending b (accountName t) \<bar>amountNum t\<bar> else b)"
    using txStep_spending(2)[OF step] .
  have "map_of b1 k = (if spentOn m allTxs k (seen @ [t]) = [] then None
           else Some (Number (sum_list (map (\<lambda>t. \<bar>amountNum t\<bar>) (spentOn m allTxs k (seen @ [t]))))))"
    using Cons.prems(2,3) b1 proto_in_names
    by (auto simp: map_of_addSpending spentOn_def)
  from Cons.IH[OF rest Cons.prems(2) this] show ?case by simp
qed

lemma stats_loop:
  assumes "stats now (Some d) = Inr r"
  shows "\<exists>g. forEachTx (txStep (now - 30 * 24 * 60 * 60) (allTransactions (accounts d)))
               (0, [], []) (allTransactions (accounts d))
             = Inr (spending30d r, spendingByAccount r, g)"
  using assms
  by (auto simp: stats_def Let_def split: prod.splits sum.splits)

lemma stats_spending30d:
  assumes "stats now (Some d) = Inr r"
  shows "spending30d r =
           sum_list (map (\<lambda>t. \<bar>amountNum t\<bar>)
             (filter (spend30 (now - 30 * 24 * 60 * 60) (allTransactions (accounts d)))
                (allTransactions (accounts d))))"
proof -
  from stats_loop[OF assms] obtain g where
    "forEachTx (txStep (now - 30 * 24 * 60 * 60) (allTransactions (accounts d)))
               (0, [], []) (allTransactions (accounts d))
             = Inr (spending30d r, spendingByAccount r, g)" ..
  from loop_spending30d[OF this] show ?thesis by simp
qed

lemma stats_spendingByAccount:
  assumes "stats now (Some d) = Inr r" and "k \<notin> set objectPrototypeNames"
  shows "map_of (spendingByAccount r) k =
           (let own = spentOn (now - 30 * 24 * 60 * 60) (allTransactions (accounts d)) k
                        (allTransactions (accounts d))
            in if own = [] then None
               else Some (Number (sum_list (map (\<lambda>t. \<bar>amountNum t\<bar>) own))))"
proof -
  from stats_loop[OF assms(1)] obtain g where
    loop: "forEachTx (txStep (now - 30 * 24 * 60 * 60) (allTransactions (accounts d)))
               (0, [], []) (allTransactions (accounts d))
             = Inr (spending30d r, spendingByAccount r, g)" ..
  have "map_of (spendingByAccount r) k =
          (if spentOn (now - 30 * 24 * 60 * 60) (allTransactions (accounts d)) k
                ([] @ allTransactions (accounts d)) = [] then None
           else Some (Number (sum_list (map (\<lambda>t. \<bar>amountNum t\<bar>)
                  (spentOn (now - 30 * 24 * 60 * 60) (allTransactions (accounts d)) k
                     ([] @ allTransactions (accounts d)))))))"
    by (rule loop_spendingByAccount[OF loop assms(2)]) (simp add: spentOn_def)
  then show ?thesis by (simp add: Let_def)
qed

lemma stats_sumValues:
  assumes "stats now (Some d) = Inr r"
    and "\<forall>acc\<in>set (accounts d). name acc \<notin> set objectPrototypeNames"
  shows "sumValues (spendingByAccount r) = spending30d r"
proof -
  let ?all = "allTransactions (accounts d)"
  let ?m = "now - 30 * 24 * 60 * 60"
  from stats_loop[OF assms(1)] obtain g where
    loop: "forEachTx (txStep ?m ?all) (0, [], []) ?all
             = Inr (spending30d r, spendingByAccount r, g)" ..
  have names: "\<forall>t\<in>set ?all. accountName t \<notin> set objectPrototypeNames"
    using assms(2) by (auto simp: set_allTransactions enrich_def)
  have same: "filter (\<lambda>t. spend30 ?m ?all t \<and> accountName t \<notin> set objectPrototypeNames) ?all
              = filter (spend30 ?m ?all) ?all"
    using names by (auto intro: filter_cong)
  have "entriesTyped []" by (simp add: entriesTyped_def)
  from loop_sumValues[OF loop this] loop_spending30d[OF loop] same
  show ?thesis by (simp add: sumValues_def)
qed

text \<open>
  Claim C3. A transaction counts exactly when it is at most 30 days old, negative and not
  a transfer (\<open>stats_spending30d\<close>), and its \<open>|amount|\<close> goes to the entry under its
  account's name for every name that is not a property name of \<^verbatim>\<open>Object.prototype\<close>
  (\<open>stats_spendingByAccount\<close>). For such a name the code departs from the claim: the
  same purchase gives the entry 120 under \<open>Total Checking\<close>, and under \<open>constructor\<close> an
  entry that is a string, not the amount.
\<close>

theorem spending_entry_inherited_name:
  "stats 1700000000 (Some (onePurchase ''Total Checking'')) =
     Inr \<lparr> netWorth = 0, assets = 0, liabilities = 0, spending30d = 120,
           spendingByAccount = [(''Total Checking'', Number 120)], subscriptions = [] \<rparr>
   \<and> stats 1700000000 (Some (onePurchase ''constructor'')) =
     Inr \<lparr> netWorth = 0, assets = 0, liabilities = 0, spending30d = 120,
           spendingByAccount = [(''constructor'', Text)], subscriptions = [] \<rparr>"
  by code_simp

text \<open>
  Claim C10. The total is the sum of the entries whenever no account name is a property
  name of \<^verbatim>\<open>Object.prototype\<close> (\<open>stats_sumValues\<close>). For the account name \<^verbatim>\<open>__proto__\<close>
  the code departs from the claim: the purchase of 120 is in the total and
  \<open>spendingByAccount\<close> stays empty.
\<close>

theorem spending_total_without_entry:
  "stats 1700000000 (Some (onePurchase ''__proto__'')) =
     Inr \<lparr> netWorth = 0, assets = 0, liabilities = 0, spending30d = 120,
           spendingByAccount = [], subscriptions = [] \<rparr>
   \<and> sumValues [] = 0"
  by code_simp

subsection \<open>When the loop throws\<close>

text \<open>
  \<open>stats\<close> returns a report when no negative, non-transfer transaction has the key
  \<open>constructor\<close>; a description that leaves this one word makes it throw.
\<close>

lemma pushGroup_safe:
  "k \<notin> set objectPrototypeNames \<Longrightarrow> \<exists>g'. pushGroup g k t = Inr g'"
  by (auto simp: pushGroup_def split: option.splits)

lemma txStep_safe:
  assumes "grouped allTxs t \<longrightarrow> groupingKey (description t) \<notin> set objectPrototypeNames"
  shows "\<exists>st'. txStep m allTxs st t = Inr st'"
proof -
  obtain s b g where fields: "st = (s, b, g)" by (rule prod_cases3)
  show ?thesis
  proof (cases "grouped allTxs t")
    case True
    with assms obtain g' where "pushGroup g (groupingKey (description t)) t = Inr g'"
      using pushGroup_safe by blast
    then show ?thesis
      using True fields
      by (auto simp: txStep_def grouped_def eligible_def Let_def split: prod.splits)
  next
    case False
    then show ?thesis
      using fields
      by (auto simp: txStep_def grouped_def eligible_def Let_def split: prod.splits)
  qed
qed

lemma loop_completes:
  assumes "\<forall>t\<in>set ts. grouped allTxs t \<longrightarrow> groupingKey (description t) \<notin> set objectPrototypeNames"
  shows "\<exists>st'. forEachTx (txStep m allTxs) st ts = Inr st'"
  using assms
proof (induction ts arbitrary: st)
  case Nil
  have "forEachTx (txStep m allTxs) st [] = Inr st" by simp
  then show ?case by blast
next
  case (Cons t ts)
  from Cons.prems obtain st1 where st1: "txStep m allTxs st t = Inr st1"
    using txStep_safe[of allTxs t m st] by auto
  from Cons.IH[of st1] Cons.prems obtain st' where "forEachTx (txStep m allTxs) st1 ts = Inr st'"
    by auto
  with st1 have "forEachTx (txStep m allTxs) st (t # ts) = Inr st'" by simp
  then show ?case by blast
qed

lemma stats_completes:
  assumes "\<forall>t\<in>set (allTransactions (accounts d)).
             eligible (allTransactions (accounts d)) t \<longrightarrow>
             groupingKey (description t) \<noteq> ''constructor''"
  shows "\<exists>r. stats now (Some d) = Inr r"
proof -
  let ?all = "allTransactions (accounts d)"
  have "\<forall>t\<in>set ?all. grouped ?all t \<longrightarrow> groupingKey (description t) \<notin> set objectPrototypeNames"
    using assms by (auto simp: grouped_def groupingKey_inherited)
  from loop_completes[OF this, of "now - 30 * 24 * 60 * 60" "(0, [], [])"]
  obtain st' where "forEachTx (txStep (now - 30 * 24 * 60 * 60) ?all) (0, [], []) ?all = Inr st'"
    by blast
  then show ?thesis
    by (cases st') (auto simp: stats_def Let_def split: prod.splits)
qed

lemma stats_throws_on_constructor:
  "groupingKey ''CONSTRUCTOR #1234'' = ''constructor''
   \<and> stats 1700000000 (Some constructorData) = Inl TypeError"
  by code_simp

end
